theory Spec2Isabelle
  imports Main "HOL-Library.Sublist"
begin

section \<open>Data model of the service worker (src/lib/serviceworker.js)\<close>

text \<open>
  A URL and a cache name are strings. A response carries what the worker sets or reads:
  status, status text, headers and body. A cache is the list of its entries in
  key-enumeration order (oldest insertion first); the cache storage is the list of the
  named caches in creation order. A cache key is the URL of the request as a string; a
  relative URL such as \<open>/offline\<close> is kept as the source writes it, for storing and
  for looking up alike.
\<close>

type_synonym url = string

record response =
  status :: nat
  statusText :: string
  headers :: "(string \<times> string) list"
  body :: string

type_synonym cache = "(url \<times> response) list"

type_synonym cache_storage = "(string \<times> cache) list"

datatype error =
  NetworkError | NetworkTimeout | StorageError | TypeError | InvalidStateError | ClientsError

text \<open>
  A promise whose settling time matters (the navigation race) either settles after a
  number of milliseconds, fulfilled (\<open>Inr\<close>) or rejected (\<open>Inl\<close>), or never settles.
  Only the network and the timer take time; a storage operation takes none.
  A promise of the lifecycle handlers, where no timer is involved, is resolved, rejected
  or pending for ever.
\<close>

datatype 'a timed = Settles nat "error + 'a" | Never

datatype 'a outcome = Resolved 'a | Rejected error | Pending

text \<open>The operations of the Cache API the worker calls; each of them may reject.\<close>

datatype storage_op =
    OpOpen string
  | OpPut string url
  | OpMatch url
  | OpKeys string
  | OpDelete string url
  | OpNames
  | OpDeleteCache string

text \<open>
  The host: what the network answers for a URL, which storage operations reject, the
  windows \<open>clients.matchAll\<close> reports (or its rejection), whether \<open>clients.claim\<close>
  rejects, and the worker's own origin.
\<close>

record platform =
  network :: "url \<Rightarrow> response timed"
  storage_fails :: "storage_op \<Rightarrow> bool"
  windows :: "error + url list"
  claim_fails :: bool
  location_origin :: string

text \<open>The build replaces APP\_VERSION, APP\_CSS\_PATH and APP\_JS\_PATH in the source.\<close>

record config =
  app_version :: string
  app_css_path :: url
  app_js_path :: url

text \<open>
  What the worker does to the outside, in the order in which the handler starts it. Work
  that a handler leaves running (the fetch after a lost race, the revalidation behind a
  cache hit) is recorded with the handler that started it.
\<close>

datatype event =
    Fetched url
  | TimerSet nat
  | Logged string
  | EntryDeleted string url
  | CacheDeleted string
  | Claimed
  | Posted url string string
  | SkippedWaiting

record sw_state =
  caches :: cache_storage
  trace :: "event list"

text \<open>
  Of a request the worker reads the URL, the origin of the URL
  (\<open>new URL(request.url).origin\<close>, computed by the host), the method, the mode and the
  \<open>Accept\<close> header (\<open>None\<close> when absent). The fetch event adds the preload response:
  a promise of a response or of \<open>undefined\<close>.
\<close>

record request =
  url :: url
  origin :: string
  req_method :: string
  mode :: string
  accept :: "string option"

record fetch_event =
  request :: request
  preloadResponse :: "response option timed"

section \<open>Constants\<close>

definition assetCacheName :: "config \<Rightarrow> string" where
  "assetCacheName cfg = ''assets-'' @ app_version cfg"

definition pagesCacheName :: string where
  "pagesCacheName = ''pages''"

definition imageCacheName :: string where
  "imageCacheName = ''images''"

definition maxPages :: nat where
  "maxPages = 50"

definition maxImages :: nat where
  "maxImages = 100"

definition timeout :: nat where
  "timeout = 5000"

definition cacheList :: "config \<Rightarrow> string list" where
  "cacheList cfg = [assetCacheName cfg, pagesCacheName, imageCacheName]"

text \<open>
  The placeholder graphic is a fixed SVG text of the source, shortened here: the worker
  only hands it on as the body of a response.
\<close>

definition placeholderImage :: string where
  "placeholderImage = ''<svg>placeholder</svg>''"

section \<open>URL tests\<close>

text \<open>\<open>String.prototype.includes\<close>: the pattern occurs at some position.\<close>

fun str_includes :: "string \<Rightarrow> string \<Rightarrow> bool" where
  "str_includes [] p = (p = [])"
| "str_includes (c # cs) p = (prefix p (c # cs) \<or> str_includes cs p)"

definition is_hex :: "char \<Rightarrow> bool" where
  "is_hex c = (c \<in> set ''abcdef0123456789'')"

text \<open>
  The pattern \<open>\/assets\/app-[a-f0-9]+\.(js|css)$\<close> matched from the start of \<open>s\<close>
  to its end. No hexadecimal digit is a dot, so the digits are the longest such run.
\<close>

definition hashed_at :: "string \<Rightarrow> bool" where
  "hashed_at s =
     (prefix ''/assets/app-'' s \<and>
      (let r = drop 12 s; h = takeWhile is_hex r; e = dropWhile is_hex r
       in h \<noteq> [] \<and> (e = ''.js'' \<or> e = ''.css'')))"

fun isHashedAsset :: "url \<Rightarrow> bool" where
  "isHashedAsset [] = hashed_at []"
| "isHashedAsset (c # cs) = (hashed_at (c # cs) \<or> isHashedAsset cs)"

text \<open>
  The pattern \<open>\.(jpe?g|png|gif|svg|webp)\<close> matched at the start of \<open>s\<close>, and the
  test of the generic strategy, which tries every position and has no end anchor.
\<close>

definition image_ext_at :: "string \<Rightarrow> bool" where
  "image_ext_at s =
     (prefix ''.jpg'' s \<or> prefix ''.jpeg'' s \<or> prefix ''.png'' s \<or>
      prefix ''.gif'' s \<or> prefix ''.svg'' s \<or> prefix ''.webp'' s)"

fun isImageUrl :: "url \<Rightarrow> bool" where
  "isImageUrl [] = image_ext_at []"
| "isImageUrl (c # cs) = (image_ext_at (c # cs) \<or> isImageUrl cs)"

text \<open>\<open>String.prototype.replace\<close> with a string pattern: the first occurrence only.\<close>

fun replace_first :: "string \<Rightarrow> string \<Rightarrow> string \<Rightarrow> string" where
  "replace_first p r [] = (if p = [] then r else [])"
| "replace_first p r (c # cs) =
     (if prefix p (c # cs) then r @ drop (length p) (c # cs)
      else c # replace_first p r cs)"

section \<open>Cache storage\<close>

text \<open>
  The Cache API of the host, as far as the worker calls it: \<open>caches.open\<close>,
  \<open>caches.match\<close>, \<open>caches.keys\<close>, \<open>caches.delete\<close>, and on an opened cache
  \<open>put\<close>, \<open>keys\<close> and \<open>delete\<close>. Each call rejects when the host says so
  (\<open>storage_fails\<close>), and otherwise works on the stored lists.
\<close>

definition emit :: "event \<Rightarrow> sw_state \<Rightarrow> sw_state" where
  "emit e s = s\<lparr>trace := trace s @ [e]\<rparr>"

text \<open>The entries of a named cache; a cache that does not exist has none.\<close>

definition cache_of :: "string \<Rightarrow> cache_storage \<Rightarrow> cache" where
  "cache_of name cs = (case map_of cs name of None \<Rightarrow> [] | Some c \<Rightarrow> c)"

definition entries :: "string \<Rightarrow> sw_state \<Rightarrow> cache" where
  "entries name s = cache_of name (caches s)"

definition cache_names :: "sw_state \<Rightarrow> string list" where
  "cache_names s = map fst (caches s)"

definition set_entries :: "string \<Rightarrow> cache \<Rightarrow> cache_storage \<Rightarrow> cache_storage" where
  "set_entries name c cs = map (\<lambda>(n, old). if n = name then (n, c) else (n, old)) cs"

text \<open>\<open>caches.open(name)\<close> creates the cache when it is absent.\<close>

definition caches_open :: "platform \<Rightarrow> string \<Rightarrow> sw_state \<Rightarrow> error + sw_state" where
  "caches_open pf name s =
     (if storage_fails pf (OpOpen name) then Inl StorageError
      else if name \<in> set (cache_names s) then Inr s
      else Inr (s\<lparr>caches := caches s @ [(name, [])]\<rparr>))"

text \<open>\<open>cache.put\<close> replaces the entry of the same key; the new entry is the youngest.\<close>

definition cache_put ::
  "platform \<Rightarrow> string \<Rightarrow> url \<Rightarrow> response \<Rightarrow> sw_state \<Rightarrow> error + sw_state" where
  "cache_put pf name k r s =
     (if storage_fails pf (OpPut name k) then Inl StorageError
      else Inr (s\<lparr>caches :=
        set_entries name (filter (\<lambda>(k', _). k' \<noteq> k) (entries name s) @ [(k, r)]) (caches s)\<rparr>))"

text \<open>
  \<open>caches.match\<close> looks through every cache, in creation order. Keys are compared as
  strings: what the host does to a URL before it compares (resolving a relative URL,
  dropping the fragment) is not modelled, and a lookup is for the key as it was stored.
\<close>

fun first_match :: "url \<Rightarrow> cache_storage \<Rightarrow> response option" where
  "first_match k [] = None"
| "first_match k ((n, c) # cs) =
     (case map_of c k of Some r \<Rightarrow> Some r | None \<Rightarrow> first_match k cs)"

definition caches_match :: "platform \<Rightarrow> url \<Rightarrow> sw_state \<Rightarrow> error + response option" where
  "caches_match pf k s =
     (if storage_fails pf (OpMatch k) then Inl StorageError
      else Inr (first_match k (caches s)))"

definition cache_keys :: "platform \<Rightarrow> string \<Rightarrow> sw_state \<Rightarrow> error + url list" where
  "cache_keys pf name s =
     (if storage_fails pf (OpKeys name) then Inl StorageError
      else Inr (map fst (entries name s)))"

definition cache_delete ::
  "platform \<Rightarrow> string \<Rightarrow> url \<Rightarrow> sw_state \<Rightarrow> error + sw_state" where
  "cache_delete pf name k s =
     (if storage_fails pf (OpDelete name k) then Inl StorageError
      else Inr (emit (EntryDeleted name k)
        (s\<lparr>caches :=
          set_entries name (filter (\<lambda>(k', _). k' \<noteq> k) (entries name s)) (caches s)\<rparr>)))"

definition caches_keys :: "platform \<Rightarrow> sw_state \<Rightarrow> error + string list" where
  "caches_keys pf s =
     (if storage_fails pf OpNames then Inl StorageError else Inr (cache_names s))"

definition caches_delete :: "platform \<Rightarrow> string \<Rightarrow> sw_state \<Rightarrow> error + sw_state" where
  "caches_delete pf name s =
     (if storage_fails pf (OpDeleteCache name) then Inl StorageError
      else Inr (emit (CacheDeleted name)
        (s\<lparr>caches := filter (\<lambda>(n, _). n \<noteq> name) (caches s)\<rparr>)))"

section \<open>Installation\<close>

definition ok :: "response \<Rightarrow> bool" where
  "ok r = (200 \<le> status r \<and> status r \<le> 299)"

text \<open>
  \<open>cache.addAll(urls)\<close> fetches every URL. It rejects as soon as one fetch rejects or
  answers with a status outside 200..299 or with the partial status 206, and then stores
  nothing; it stays pending while a fetch is; it rejects when a URL occurs twice in the
  list; otherwise it stores every response.
\<close>

fun fetch_result :: "response timed \<Rightarrow> response outcome" where
  "fetch_result Never = Pending"
| "fetch_result (Settles t (Inl e)) = Rejected e"
| "fetch_result (Settles t (Inr r)) =
     (if ok r \<and> status r \<noteq> 206 then Resolved r else Rejected TypeError)"

fun gather :: "(url \<times> response outcome) list \<Rightarrow> (url \<times> response) list outcome" where
  "gather [] = Resolved []"
| "gather ((u, Rejected e) # rest) = Rejected e"
| "gather ((u, Pending) # rest) =
     (case gather rest of Rejected e \<Rightarrow> Rejected e | _ \<Rightarrow> Pending)"
| "gather ((u, Resolved r) # rest) =
     (case gather rest of
        Resolved krs \<Rightarrow> Resolved ((u, r) # krs)
      | Rejected e \<Rightarrow> Rejected e
      | Pending \<Rightarrow> Pending)"

fun put_all :: "platform \<Rightarrow> string \<Rightarrow> (url \<times> response) list \<Rightarrow> sw_state \<Rightarrow> error + sw_state" where
  "put_all pf name [] s = Inr s"
| "put_all pf name ((k, r) # krs) s =
     (case cache_put pf name k r s of
        Inl e \<Rightarrow> Inl e
      | Inr s1 \<Rightarrow> put_all pf name krs s1)"

definition addAll ::
  "platform \<Rightarrow> string \<Rightarrow> url list \<Rightarrow> sw_state \<Rightarrow> unit outcome \<times> sw_state" where
  "addAll pf name urls s =
     (let s1 = fold (\<lambda>u. emit (Fetched u)) urls s in
      case gather (map (\<lambda>u. (u, fetch_result (network pf u))) urls) of
        Rejected e \<Rightarrow> (Rejected e, s1)
      | Pending \<Rightarrow> (Pending, s1)
      | Resolved krs \<Rightarrow>
          if \<not> distinct urls then (Rejected InvalidStateError, s1)
          else
            (case put_all pf name krs s1 of
               Inl e \<Rightarrow> (Rejected e, s1)
             | Inr s2 \<Rightarrow> (Resolved (), s2)))"

text \<open>
  \<open>updateAssetCache\<close>: the whole body is inside \<open>try\<close>; the \<open>catch\<close> logs and the
  function then returns \<open>undefined\<close>. The first \<open>addAll\<close> is not awaited, so its
  outcome is dropped; its effect on the cache is taken before the second one's.
\<close>

definition updateAssetCache ::
  "config \<Rightarrow> platform \<Rightarrow> sw_state \<Rightarrow> string option outcome \<times> sw_state" where
  "updateAssetCache cfg pf s =
     (case caches_open pf (assetCacheName cfg) s of
        Inl e \<Rightarrow> (Resolved None, emit (Logged ''Error updating asset cache'') s)
      | Inr s1 \<Rightarrow>
          (let s2 = snd (addAll pf (assetCacheName cfg) [''/app.webmanifest''] s1) in
           case addAll pf (assetCacheName cfg)
                  [app_css_path cfg, app_js_path cfg, ''/offline''] s2 of
             (Rejected e, s3) \<Rightarrow>
               (Resolved None, emit (Logged ''Error updating asset cache'') s3)
           | (Pending, s3) \<Rightarrow> (Pending, s3)
           | (Resolved u, s3) \<Rightarrow> (Resolved (Some (assetCacheName cfg)), s3)))"

definition cacheClients :: "platform \<Rightarrow> sw_state \<Rightarrow> string option outcome \<times> sw_state" where
  "cacheClients pf s =
     (case windows pf of
        Inl e \<Rightarrow> (Resolved None, emit (Logged ''Error updating client cache'') s)
      | Inr pages \<Rightarrow>
          (case caches_open pf pagesCacheName s of
             Inl e \<Rightarrow> (Resolved None, emit (Logged ''Error updating client cache'') s)
           | Inr s1 \<Rightarrow>
               (case addAll pf pagesCacheName pages s1 of
                  (Rejected e, s2) \<Rightarrow>
                    (Resolved None, emit (Logged ''Error updating client cache'') s2)
                | (Pending, s2) \<Rightarrow> (Pending, s2)
                | (Resolved u, s2) \<Rightarrow> (Resolved (Some pagesCacheName), s2))))"

text \<open>
  The install listener hands \<open>event.waitUntil\<close> the promise of: await
  \<open>updateAssetCache()\<close>, await \<open>cacheClients()\<close>, then \<open>skipWaiting()\<close>. An await of a
  rejected promise would reject the whole.
\<close>

definition install :: "config \<Rightarrow> platform \<Rightarrow> sw_state \<Rightarrow> unit outcome \<times> sw_state" where
  "install cfg pf s =
     (case updateAssetCache cfg pf s of
        (Rejected e, s1) \<Rightarrow> (Rejected e, s1)
      | (Pending, s1) \<Rightarrow> (Pending, s1)
      | (Resolved a, s1) \<Rightarrow>
          (case cacheClients pf s1 of
             (Rejected e, s2) \<Rightarrow> (Rejected e, s2)
           | (Pending, s2) \<Rightarrow> (Pending, s2)
           | (Resolved c, s2) \<Rightarrow> (Resolved (), emit SkippedWaiting s2)))"

section \<open>Activation\<close>

text \<open>
  \<open>clearOldCaches\<close> starts one \<open>caches.delete\<close> for every key outside \<open>cacheList\<close>
  and awaits them together: every deletion is attempted, and one rejection is enough for
  the \<open>catch\<close> to log.
\<close>

fun delete_each :: "platform \<Rightarrow> string list \<Rightarrow> sw_state \<Rightarrow> bool \<times> sw_state" where
  "delete_each pf [] s = (False, s)"
| "delete_each pf (key # keys) s =
     (case caches_delete pf key s of
        Inl e \<Rightarrow> (True, snd (delete_each pf keys s))
      | Inr s1 \<Rightarrow> delete_each pf keys s1)"

definition clearOldCaches :: "config \<Rightarrow> platform \<Rightarrow> sw_state \<Rightarrow> sw_state" where
  "clearOldCaches cfg pf s =
     (case caches_keys pf s of
        Inl e \<Rightarrow> emit (Logged ''Error clearing old caches'') s
      | Inr keys \<Rightarrow>
          (case delete_each pf (filter (\<lambda>key. key \<notin> set (cacheList cfg)) keys) s of
             (True, s1) \<Rightarrow> emit (Logged ''Error clearing old caches'') s1
           | (False, s1) \<Rightarrow> s1))"

definition notifyClients :: "config \<Rightarrow> platform \<Rightarrow> sw_state \<Rightarrow> unit outcome \<times> sw_state" where
  "notifyClients cfg pf s =
     (let version = replace_first ''assets-'' [] (assetCacheName cfg) in
      case windows pf of
        Inl e \<Rightarrow> (Rejected e, s)
      | Inr allClients \<Rightarrow>
          (Resolved (),
           fold (\<lambda>client. emit (Posted client ''SW_UPDATED'' version)) allClients s))"

text \<open>
  The activate listener: await \<open>clearOldCaches()\<close>, await \<open>clients.claim()\<close>, await
  \<open>notifyClients()\<close>, in this order. (A second listener only enables the navigation
  preload of the host and touches neither caches nor clients.)
\<close>

definition activate :: "config \<Rightarrow> platform \<Rightarrow> sw_state \<Rightarrow> unit outcome \<times> sw_state" where
  "activate cfg pf s =
     (let s1 = clearOldCaches cfg pf s in
      if claim_fails pf then (Rejected ClientsError, s1)
      else notifyClients cfg pf (emit Claimed s1))"

section \<open>Interception\<close>

definition offlineResponse :: response where
  "offlineResponse =
     \<lparr>status = 503, statusText = ''Service Unavailable'',
      headers = [(''Content-Type'', ''text/plain'')], body = ''Offline''\<rparr>"

definition networkErrorResponse :: response where
  "networkErrorResponse =
     \<lparr>status = 503, statusText = ''Service Unavailable'',
      headers = [(''Content-Type'', ''text/plain'')], body = ''Network error''\<rparr>"

definition placeholderResponse :: response where
  "placeholderResponse =
     \<lparr>status = 200, statusText = [],
      headers = [(''Content-Type'', ''image/svg+xml''), (''Cache-Control'', ''no-store'')],
      body = placeholderImage\<rparr>"

text \<open>
  The inner \<open>try\<close> of the navigation and of the generic strategy: clone, open the cache,
  put the copy; the \<open>catch\<close> logs and nothing else.
\<close>

definition try_store ::
  "platform \<Rightarrow> string \<Rightarrow> url \<Rightarrow> response \<Rightarrow> string \<Rightarrow> sw_state \<Rightarrow> sw_state" where
  "try_store pf name k r msg s =
     (case caches_open pf name s of
        Inl e \<Rightarrow> emit (Logged msg) s
      | Inr s1 \<Rightarrow>
          (case cache_put pf name k r s1 of
             Inl e \<Rightarrow> emit (Logged msg) s1
           | Inr s2 \<Rightarrow> s2))"

text \<open>
  \<open>networkFetch\<close>: await the preload response; when it is \<open>undefined\<close>, fetch the
  request, which starts when the preload has settled.
\<close>

definition networkFetch :: "platform \<Rightarrow> fetch_event \<Rightarrow> sw_state \<Rightarrow> response timed \<times> sw_state" where
  "networkFetch pf ev s =
     (case preloadResponse ev of
        Never \<Rightarrow> (Never, s)
      | Settles t (Inl e) \<Rightarrow> (Settles t (Inl e), s)
      | Settles t (Inr (Some r)) \<Rightarrow> (Settles t (Inr r), s)
      | Settles t (Inr None) \<Rightarrow>
          (case network pf (url (request ev)) of
             Never \<Rightarrow> (Never, emit (Fetched (url (request ev))) s)
           | Settles t' x \<Rightarrow> (Settles (t + t') x, emit (Fetched (url (request ev))) s)))"

text \<open>
  \<open>Promise.race\<close> of a promise and a timer that rejects after \<open>ms\<close> milliseconds: the
  first to settle decides. Should both settle in the same millisecond, the promise, first
  in the array, is taken; no property below depends on this choice.
\<close>

definition race_timeout :: "'a timed \<Rightarrow> nat \<Rightarrow> 'a timed" where
  "race_timeout p ms =
     (case p of
        Never \<Rightarrow> Settles ms (Inl NetworkTimeout)
      | Settles t x \<Rightarrow> if t \<le> ms then Settles t x else Settles ms (Inl NetworkTimeout))"

text \<open>
  The strategies return the promise handed to \<open>event.respondWith\<close>, with the time at
  which it settles counted from the start of the network fetch, and the state once the
  work they started has come to rest.

  In the navigation strategy \<open>networkFetch\<close> first awaits the preload response, so the
  timer of the race is set before the request is fetched; the trace has them in this
  order.
\<close>

definition navigationStrategy ::
  "platform \<Rightarrow> fetch_event \<Rightarrow> sw_state \<Rightarrow> response timed \<times> sw_state" where
  "navigationStrategy pf ev s =
     (case caches_match pf (url (request ev)) s of
        Inl e \<Rightarrow> (Settles 0 (Inl e), s)
      | Inr cachedResponse \<Rightarrow>
          (let s0 = (case cachedResponse of
                       Some c \<Rightarrow> emit (TimerSet timeout) s
                     | None \<Rightarrow> s);
               (fetching, s1) = networkFetch pf ev s0;
               raced = (case cachedResponse of
                          Some c \<Rightarrow> race_timeout fetching timeout
                        | None \<Rightarrow> fetching)
           in case raced of
                Never \<Rightarrow> (Never, s1)
              | Settles t (Inr responseFromNetwork) \<Rightarrow>
                  (Settles t (Inr responseFromNetwork),
                   try_store pf pagesCacheName (url (request ev)) responseFromNetwork
                     ''Failed to cache page:'' s1)
              | Settles t (Inl e) \<Rightarrow>
                  (case cachedResponse of
                     Some c \<Rightarrow> (Settles t (Inr c), s1)
                   | None \<Rightarrow>
                       (case caches_match pf ''/offline'' s1 of
                          Inl e' \<Rightarrow> (Settles t (Inl e'), s1)
                        | Inr (Some off) \<Rightarrow> (Settles t (Inr off), s1)
                        | Inr None \<Rightarrow> (Settles t (Inr offlineResponse), s1)))))"

definition hashedAssetStrategy ::
  "config \<Rightarrow> platform \<Rightarrow> fetch_event \<Rightarrow> sw_state \<Rightarrow> response timed \<times> sw_state" where
  "hashedAssetStrategy cfg pf ev s =
     (case caches_match pf (url (request ev)) s of
        Inl e \<Rightarrow> (Settles 0 (Inl e), s)
      | Inr (Some responseFromCache) \<Rightarrow> (Settles 0 (Inr responseFromCache), s)
      | Inr None \<Rightarrow>
          (let s1 = emit (Fetched (url (request ev))) s in
           case network pf (url (request ev)) of
             Never \<Rightarrow> (Never, s1)
           | Settles t (Inl e) \<Rightarrow>
               (Settles t (Inr networkErrorResponse),
                emit (Logged ''Fetch failed for hashed asset:'') s1)
           | Settles t (Inr responseFromFetch) \<Rightarrow>
               (case caches_open pf (assetCacheName cfg) s1 of
                  Inl e \<Rightarrow>
                    (Settles t (Inr networkErrorResponse),
                     emit (Logged ''Fetch failed for hashed asset:'') s1)
                | Inr s2 \<Rightarrow>
                    (case cache_put pf (assetCacheName cfg) (url (request ev))
                            responseFromFetch s2 of
                       Inl e \<Rightarrow>
                         (Settles t (Inr networkErrorResponse),
                          emit (Logged ''Fetch failed for hashed asset:'') s2)
                     | Inr s3 \<Rightarrow> (Settles t (Inr responseFromFetch), s3)))))"

text \<open>The response of the generic strategy when neither cache nor network has one.\<close>

definition offlineFallback :: "url \<Rightarrow> response" where
  "offlineFallback u = (if isImageUrl u then placeholderResponse else networkErrorResponse)"

text \<open>
  \<open>fetchPromise\<close> of the generic strategy: the fetch and its \<open>then\<close> (store an image)
  and \<open>catch\<close> (log, give \<open>null\<close>); it never rejects.
\<close>

definition fetchPromise :: "platform \<Rightarrow> url \<Rightarrow> sw_state \<Rightarrow> response option timed \<times> sw_state" where
  "fetchPromise pf u s =
     (case network pf u of
        Never \<Rightarrow> (Never, s)
      | Settles t (Inl e) \<Rightarrow> (Settles t (Inr None), emit (Logged ''Background fetch failed:'') s)
      | Settles t (Inr responseFromFetch) \<Rightarrow>
          (Settles t (Inr (Some responseFromFetch)),
           if isImageUrl u
           then try_store pf imageCacheName u responseFromFetch ''Failed to cache image:'' s
           else s))"

definition genericStrategy ::
  "platform \<Rightarrow> fetch_event \<Rightarrow> sw_state \<Rightarrow> response timed \<times> sw_state" where
  "genericStrategy pf ev s =
     (case caches_match pf (url (request ev)) s of
        Inl e \<Rightarrow>
          (Settles 0 (Inr (offlineFallback (url (request ev)))),
           emit (Logged ''Fetch failed for non-HTML resource:'') s)
      | Inr responseFromCache \<Rightarrow>
          (let (fetched, s2) =
                 fetchPromise pf (url (request ev)) (emit (Fetched (url (request ev))) s)
           in case responseFromCache of
                Some c \<Rightarrow> (Settles 0 (Inr c), s2)
              | None \<Rightarrow>
                  (case fetched of
                     Never \<Rightarrow> (Never, s2)
                   | Settles t (Inr (Some responseFromFetch)) \<Rightarrow>
                       (Settles t (Inr responseFromFetch), s2)
                   | Settles t (Inr None) \<Rightarrow>
                       (Settles t (Inr (offlineFallback (url (request ev)))), s2)
                   | Settles t (Inl e) \<Rightarrow>
                       (Settles t (Inr (offlineFallback (url (request ev)))),
                        emit (Logged ''Fetch failed for non-HTML resource:'') s2))))"

text \<open>The fetch listener: bypass, or respond with the promise of one strategy.\<close>

datatype interception = Bypass | RespondWith "response timed"

definition wantsHtml :: "request \<Rightarrow> bool" where
  "wantsHtml r =
     (mode r = ''navigate'' \<or>
      str_includes (case accept r of None \<Rightarrow> [] | Some a \<Rightarrow> a) ''text/html'')"

definition handleFetch ::
  "config \<Rightarrow> platform \<Rightarrow> fetch_event \<Rightarrow> sw_state \<Rightarrow> interception \<times> sw_state" where
  "handleFetch cfg pf ev s =
     (if origin (request ev) \<noteq> location_origin pf \<or> req_method (request ev) \<noteq> ''GET''
      then (Bypass, s)
      else if wantsHtml (request ev)
      then (let (r, s') = navigationStrategy pf ev s in (RespondWith r, s'))
      else if isHashedAsset (url (request ev))
      then (let (r, s') = hashedAssetStrategy cfg pf ev s in (RespondWith r, s'))
      else (let (r, s') = genericStrategy pf ev s in (RespondWith r, s')))"

section \<open>Trimming a cache\<close>

text \<open>
  \<open>trimCache\<close> opens the cache, reads its keys and, when there are more than
  \<open>maxItems\<close>, deletes \<open>keys[0]\<close> and calls itself. Any rejection is caught and logged,
  and ends the trimming. \<open>keys[0]\<close> of an empty array is \<open>undefined\<close>, which
  \<open>cache.delete\<close> refuses with a TypeError.
\<close>

text \<open>Facts about the storage operations that the termination of the trimming needs.\<close>

lemma map_of_set_entries_same:
  "name \<in> fst ` set cs \<Longrightarrow> map_of (set_entries name c cs) name = Some c"
  by (induction cs) (auto simp: set_entries_def)

lemma map_of_set_entries_other:
  "n \<noteq> name \<Longrightarrow> map_of (set_entries name c cs) n = map_of cs n"
  by (induction cs) (auto simp: set_entries_def)

lemma fst_set_entries: "map fst (set_entries name c cs) = map fst cs"
  by (induction cs) (auto simp: set_entries_def)

lemma cache_of_append_new:
  assumes "name \<notin> fst ` set cs"
  shows "cache_of n (cs @ [(name, [])]) = cache_of n cs"
proof (cases "map_of cs n")
  case None
  then show ?thesis by (simp add: cache_of_def map_add_def)
next
  case (Some c)
  then show ?thesis by (simp add: cache_of_def map_add_def)
qed

lemma cache_of_set_entries_same:
  "name \<in> fst ` set cs \<Longrightarrow> cache_of name (set_entries name c cs) = c"
  by (simp add: cache_of_def map_of_set_entries_same)

lemma cache_of_set_entries_other:
  "n \<noteq> name \<Longrightarrow> cache_of n (set_entries name c cs) = cache_of n cs"
  by (simp add: cache_of_def map_of_set_entries_other)

lemma caches_open_Inr:
  assumes "caches_open pf name s = Inr s1"
  shows "name \<in> set (cache_names s1)" and "entries n s1 = entries n s" and "trace s1 = trace s"
    and "set (cache_names s1) = insert name (set (cache_names s))"
  using assms
  by (auto simp: caches_open_def cache_names_def entries_def cache_of_append_new split: if_splits)

lemma entries_emit [simp]: "entries n (emit e s) = entries n s"
  by (simp add: entries_def emit_def)

lemma cache_names_emit [simp]: "cache_names (emit e s) = cache_names s"
  by (simp add: cache_names_def emit_def)

lemma cache_delete_Inr:
  assumes "cache_delete pf name k s = Inr s2" and "name \<in> set (cache_names s)"
  shows "entries name s2 = filter (\<lambda>(k', _). k' \<noteq> k) (entries name s)"
    and "n \<noteq> name \<Longrightarrow> entries n s2 = entries n s"
    and "trace s2 = trace s @ [EntryDeleted name k]"
    and "cache_names s2 = cache_names s"
proof -
  have s2: "s2 = emit (EntryDeleted name k)
        (s\<lparr>caches :=
          set_entries name (filter (\<lambda>(k', _). k' \<noteq> k) (entries name s)) (caches s)\<rparr>)"
    using assms(1) by (simp add: cache_delete_def split: if_splits)
  have mem: "name \<in> fst ` set (caches s)"
    using assms(2) by (simp add: cache_names_def)
  show "entries name s2 = filter (\<lambda>(k', _). k' \<noteq> k) (entries name s)"
    using mem by (simp add: s2 entries_def emit_def cache_of_set_entries_same)
  show "n \<noteq> name \<Longrightarrow> entries n s2 = entries n s"
    by (simp add: s2 entries_def emit_def cache_of_set_entries_other)
  show "trace s2 = trace s @ [EntryDeleted name k]"
    by (simp add: s2 emit_def)
  show "cache_names s2 = cache_names s"
    by (simp add: s2 emit_def cache_names_def fst_set_entries)
qed

lemma cache_keys_Inr: "cache_keys pf name s = Inr keys \<Longrightarrow> keys = map fst (entries name s)"
  by (simp add: cache_keys_def split: if_splits)

lemma filter_hd_shorter:
  "map fst c = k # ks \<Longrightarrow> length (filter (\<lambda>(k', _). k' \<noteq> k) c) < length c"
  by (cases c) (auto simp: le_imp_less_Suc)

definition trim_error :: "string \<Rightarrow> sw_state \<Rightarrow> sw_state" where
  "trim_error name s = emit (Logged (''Error trimming '' @ name @ '' cache'')) s"

function trimCache :: "platform \<Rightarrow> string \<Rightarrow> nat \<Rightarrow> sw_state \<Rightarrow> sw_state" where
  "trimCache pf name maxItems s =
     (case caches_open pf name s of
        Inl e \<Rightarrow> trim_error name s
      | Inr s1 \<Rightarrow>
          (case cache_keys pf name s1 of
             Inl e \<Rightarrow> trim_error name s1
           | Inr keys \<Rightarrow>
               if length keys > maxItems then
                 (case keys of
                    [] \<Rightarrow> trim_error name s1
                  | k # _ \<Rightarrow>
                      (case cache_delete pf name k s1 of
                         Inl e \<Rightarrow> trim_error name s1
                       | Inr s2 \<Rightarrow> trimCache pf name maxItems s2))
               else s1))"
  by pat_completeness auto
termination
proof (relation "measure (\<lambda>(pf, name, maxItems, s). length (entries name s))")
  show "wf (measure (\<lambda>(pf, name, maxItems, s). length (entries name s)))" by simp
next
  fix pf name maxItems s s1 keys k ks s2
  assume a: "caches_open pf name s = Inr s1" "cache_keys pf name s1 = Inr keys"
     "keys = k # ks" "cache_delete pf name k s1 = Inr s2"
  show "((pf, name, maxItems, s2), (pf, name, maxItems, s)) \<in> measure (\<lambda>(pf, name, maxItems, s). length (entries name s))"
  proof -
    have 1: "name \<in> set (cache_names s1)" and 2: "entries name s1 = entries name s"
      using caches_open_Inr[OF a(1)] by auto
    have 3: "map fst (entries name s1) = k # ks"
      using cache_keys_Inr[OF a(2)] a(3) by simp
    have "entries name s2 = filter (\<lambda>(k', _). k' \<noteq> k) (entries name s1)"
      using cache_delete_Inr(1)[OF a(4) 1] .
    then show ?thesis using filter_hd_shorter[OF 3] 2 by simp
  qed
qed

declare trimCache.simps [simp del]

text \<open>
  The message listener: on the command \<open>trimCaches\<close> it trims the pages cache and the
  image cache. The listener awaits neither call; the two work on different caches, and
  the second is taken after the first, so the order of their events in the trace is one
  of the possible ones.
\<close>

definition handleMessage :: "platform \<Rightarrow> string \<Rightarrow> sw_state \<Rightarrow> sw_state" where
  "handleMessage pf command s =
     (if command = ''trimCaches''
      then trimCache pf imageCacheName maxImages (trimCache pf pagesCacheName maxPages s)
      else s)"

section \<open>Observations\<close>

text \<open>The durations of the timers set in a trace, in order.\<close>

definition timers_set :: "event list \<Rightarrow> nat list" where
  "timers_set tr = concat (map (\<lambda>e. case e of TimerSet ms \<Rightarrow> [ms] | _ \<Rightarrow> []) tr)"


section \<open>Sample hosts and states\<close>

definition okResponse :: "string \<Rightarrow> response" where
  "okResponse b = \<lparr>status = 200, statusText = ''OK'', headers = [], body = b\<rparr>"

definition quiet_platform :: platform where
  "quiet_platform =
     \<lparr>network = (\<lambda>u. Never), storage_fails = (\<lambda>op. False), windows = Inr [],
      claim_fails = False, location_origin = ''https://example.org''\<rparr>"

definition three_pages :: sw_state where
  "three_pages =
     \<lparr>caches = [(''pages'', [(''/a'', okResponse ''a''), (''/b'', okResponse ''b''),
                              (''/c'', okResponse ''c'')])],
      trace = []\<rparr>"

definition sample_config :: config where
  "sample_config = \<lparr>app_version = ''v2'', app_css_path = ''/assets/app-0a1b.css'',
                     app_js_path = ''/assets/app-2c3d.js''\<rparr>"

definition one_window_platform :: platform where
  "one_window_platform =
     \<lparr>network = (\<lambda>u. Never), storage_fails = (\<lambda>op. False),
      windows = Inr [''https://example.org/''],
      claim_fails = False, location_origin = ''https://example.org''\<rparr>"

definition after_upgrade :: sw_state where
  "after_upgrade =
     \<lparr>caches = [(''assets-v1'', []), (''pages'', []), (''assets-v2'', [])], trace = []\<rparr>"

definition fresh_state :: sw_state where
  "fresh_state = \<lparr>caches = [], trace = []\<rparr>"

definition offline_unreachable :: platform where
  "offline_unreachable =
     \<lparr>network = (\<lambda>u. if u = ''/offline'' then Settles 30 (Inl NetworkError)
                       else Settles 30 (Inr (okResponse u))),
      storage_fails = (\<lambda>op. False), windows = Inr [],
      claim_fails = False, location_origin = ''https://example.org''\<rparr>"

definition put_rejecting :: platform where
  "put_rejecting =
     \<lparr>network = (\<lambda>u. Settles 40 (Inr (okResponse ''script''))),
      storage_fails = (\<lambda>op. case op of OpPut n k \<Rightarrow> True | _ \<Rightarrow> False),
      windows = Inr [], claim_fails = False, location_origin = ''https://example.org''\<rparr>"

definition script_request :: fetch_event where
  "script_request =
     \<lparr>request = \<lparr>url = ''https://example.org/assets/app-a1b2c3.js'',
                  origin = ''https://example.org'', req_method = ''GET'',
                  mode = ''no-cors'', accept = Some ''*/*''\<rparr>,
      preloadResponse = Settles 0 (Inr None)\<rparr>"

definition slow_platform :: platform where
  "slow_platform =
     \<lparr>network = (\<lambda>u. Settles 8000 (Inr (okResponse ''fresh page''))),
      storage_fails = (\<lambda>op. False), windows = Inr [],
      claim_fails = False, location_origin = ''https://example.org''\<rparr>"

definition down_platform :: platform where
  "down_platform =
     \<lparr>network = (\<lambda>u. Settles 20 (Inl NetworkError)),
      storage_fails = (\<lambda>op. False), windows = Inr [],
      claim_fails = False, location_origin = ''https://example.org''\<rparr>"

definition page_visit :: fetch_event where
  "page_visit =
     \<lparr>request = \<lparr>url = ''https://example.org/notes'', origin = ''https://example.org'',
                  req_method = ''GET'', mode = ''navigate'', accept = Some ''text/html''\<rparr>,
      preloadResponse = Settles 0 (Inr None)\<rparr>"

definition visited_before :: sw_state where
  "visited_before =
     \<lparr>caches = [(''assets-v2'', [(''/offline'', okResponse ''offline page'')]),
                (''pages'', [(''https://example.org/notes'', okResponse ''old page'')])],
      trace = []\<rparr>"

definition never_visited :: sw_state where
  "never_visited =
     \<lparr>caches = [(''assets-v2'', [(''/offline'', okResponse ''offline page'')]),
                (''pages'', [])],
      trace = []\<rparr>"

definition serving_platform :: platform where
  "serving_platform =
     \<lparr>network = (\<lambda>u. Settles 40 (Inr (okResponse ''script''))),
      storage_fails = (\<lambda>op. False), windows = Inr [],
      claim_fails = False, location_origin = ''https://example.org''\<rparr>"



section \<open>Properties of the trimming\<close>

lemma filter_distinct_hd:
  "distinct (map fst ((k, r) # rest)) \<Longrightarrow> filter (\<lambda>(k', _). k' \<noteq> k) ((k, r) # rest) = rest"
  by (induction rest) auto

lemma trimCache_no_fault:
  assumes "\<not> storage_fails pf (OpOpen name)"
    and "\<not> storage_fails pf (OpKeys name)"
    and "\<forall>k. \<not> storage_fails pf (OpDelete name k)"
    and "distinct (map fst (entries name s))"
  shows "entries name (trimCache pf name maxItems s) =
           drop (length (entries name s) - maxItems) (entries name s)
       \<and> trace (trimCache pf name maxItems s) =
           trace s @ map (EntryDeleted name)
             (take (length (entries name s) - maxItems) (map fst (entries name s)))
       \<and> (\<forall>n. n \<noteq> name \<longrightarrow> entries n (trimCache pf name maxItems s) = entries n s)"
  using assms
proof (induction pf name maxItems s rule: trimCache.induct)
  case (1 pf name maxItems s)
  obtain s1 where op: "caches_open pf name s = Inr s1"
    using "1.prems"(1) by (cases "name \<in> set (cache_names s)") (simp_all add: caches_open_def)
  note o = caches_open_Inr[OF op]
  have keys: "cache_keys pf name s1 = Inr (map fst (entries name s))"
    using "1.prems"(2) o(2)[of name] by (simp add: cache_keys_def)
  show ?case
  proof (cases "maxItems < length (entries name s)")
    case False
    then have "trimCache pf name maxItems s = s1"
      by (subst trimCache.simps) (simp add: op keys)
    then show ?thesis using False o by simp
  next
    case True
    then obtain k r rest where e: "entries name s = (k, r) # rest"
      by (cases "entries name s") auto
    obtain s2 where del: "cache_delete pf name k s1 = Inr s2"
      using "1.prems"(3) by (simp add: cache_delete_def)
    note d = cache_delete_Inr[OF del o(1)]
    have rest: "entries name s2 = rest"
      using d(1) o(2)[of name] e "1.prems"(4) filter_distinct_hd[of k r rest] by simp
    have step: "trimCache pf name maxItems s = trimCache pf name maxItems s2"
      using True by (subst trimCache.simps) (simp add: op keys e del)
    have dist: "distinct (map fst (entries name s2))"
      using rest e "1.prems"(4) by simp
    have ih: "entries name (trimCache pf name maxItems s2) =
           drop (length (entries name s2) - maxItems) (entries name s2)
       \<and> trace (trimCache pf name maxItems s2) =
           trace s2 @ map (EntryDeleted name)
             (take (length (entries name s2) - maxItems) (map fst (entries name s2)))
       \<and> (\<forall>n. n \<noteq> name \<longrightarrow> entries n (trimCache pf name maxItems s2) = entries n s2)"
      using "1.IH"[OF op keys _ _ del "1.prems"(1,2,3) dist] True e by simp
    have len: "length (entries name s) - maxItems = Suc (length rest - maxItems)"
      using True e by simp
    show ?thesis
      using ih rest d(2,3) o(2,3) e len by (simp add: step)
  qed
qed


text \<open>
  C4. When a cache holds more entries than the bound, its keys are distinct and the
  storage operations on it do not reject, \<open>trimCache\<close> (a total function: the
  recursion ends) leaves exactly \<open>maxItems\<close> entries, the last ones in key-enumeration
  order, that is the most recently inserted; the oldest are deleted one at a time, oldest
  first, and no other cache changes.
\<close>

theorem trimCache_keeps_newest:
  assumes "distinct (map fst (entries name s))"
    and "maxItems < length (entries name s)"
    and "\<not> storage_fails pf (OpOpen name)"
    and "\<not> storage_fails pf (OpKeys name)"
    and "\<forall>k. \<not> storage_fails pf (OpDelete name k)"
  shows "entries name (trimCache pf name maxItems s) =
           drop (length (entries name s) - maxItems) (entries name s)
       \<and> length (entries name (trimCache pf name maxItems s)) = maxItems
       \<and> trace (trimCache pf name maxItems s) =
           trace s @ map (EntryDeleted name)
             (take (length (entries name s) - maxItems) (map fst (entries name s)))
       \<and> (\<forall>n. n \<noteq> name \<longrightarrow> entries n (trimCache pf name maxItems s) = entries n s)"
proof -
  note g = trimCache_no_fault[OF assms(3,4,5,1), of maxItems]
  have "length (drop (length (entries name s) - maxItems) (entries name s)) = maxItems"
    using assms(2) by simp
  then show ?thesis using g by simp
qed

theorem trimCache_keeps_newest_witness:
  "entries ''pages'' (trimCache quiet_platform ''pages'' 1 three_pages) = [(''/c'', okResponse ''c'')]
   \<and> trace (trimCache quiet_platform ''pages'' 1 three_pages) =
       [EntryDeleted ''pages'' ''/a'', EntryDeleted ''pages'' ''/b'']"
  using trimCache_keeps_newest[of "''pages''" three_pages 1 quiet_platform]
  by (simp add: entries_def cache_of_def three_pages_def quiet_platform_def)

text \<open>
  C9. When the cache holds at most \<open>maxItems\<close> entries, \<open>trimCache\<close> leaves the
  entries of every cache as they are and deletes nothing: the only event it can add is the
  log of a rejected open or key listing.
\<close>

theorem trimCache_within_bound_unchanged:
  assumes "length (entries name s) \<le> maxItems"
  shows "(\<forall>n. entries n (trimCache pf name maxItems s) = entries n s)
       \<and> trace (trimCache pf name maxItems s) =
           (if storage_fails pf (OpOpen name) \<or> storage_fails pf (OpKeys name)
            then trace s @ [Logged (''Error trimming '' @ name @ '' cache'')]
            else trace s)"
proof (cases "caches_open pf name s")
  case (Inl e)
  then have f: "storage_fails pf (OpOpen name)"
    by (simp add: caches_open_def split: if_splits)
  have "trimCache pf name maxItems s = trim_error name s"
    by (subst trimCache.simps) (simp add: Inl)
  then show ?thesis using f by (simp add: trim_error_def emit_def entries_def)
next
  case (Inr s1)
  then have f: "\<not> storage_fails pf (OpOpen name)"
    by (simp add: caches_open_def split: if_splits)
  note o = caches_open_Inr[OF Inr]
  show ?thesis
  proof (cases "storage_fails pf (OpKeys name)")
    case True
    then have "trimCache pf name maxItems s = trim_error name s1"
      by (subst trimCache.simps) (simp add: Inr cache_keys_def)
    then show ?thesis using f True o(2,3) by (simp add: trim_error_def emit_def entries_def)
  next
    case False
    then have "trimCache pf name maxItems s = s1"
      using assms o(2)[of name] by (subst trimCache.simps) (simp add: Inr cache_keys_def)
    then show ?thesis using f False o(2,3) by simp
  qed
qed

theorem trimCache_within_bound_unchanged_witness:
  "length (entries ''pages'' three_pages) \<le> 3
   \<and> entries ''pages'' (trimCache quiet_platform ''pages'' 3 three_pages) =
       entries ''pages'' three_pages
   \<and> trace (trimCache quiet_platform ''pages'' 3 three_pages) = trace three_pages"
  using trimCache_within_bound_unchanged[of "''pages''" three_pages 3 quiet_platform]
  by (simp add: entries_def cache_of_def three_pages_def quiet_platform_def)

section \<open>Properties of the activation\<close>

lemma replace_first_prefix: "p \<noteq> [] \<Longrightarrow> replace_first p r (p @ v) = r @ v"
  by (cases p) simp_all

lemma version_token: "replace_first ''assets-'' [] (assetCacheName cfg) = app_version cfg"
  using replace_first_prefix[of "''assets-''" "[]" "app_version cfg"]
  by (simp add: assetCacheName_def)

lemma trace_fold_emit: "trace (fold (\<lambda>x. emit (f x)) xs s) = trace s @ map f xs"
  by (induction xs arbitrary: s) (simp_all add: emit_def)

lemma caches_fold_emit: "caches (fold (\<lambda>x. emit (f x)) xs s) = caches s"
  by (induction xs arbitrary: s) (simp_all add: emit_def)

lemma delete_each_no_fault:
  assumes "\<forall>n. \<not> storage_fails pf (OpDeleteCache n)"
  shows "delete_each pf ks s =
           (False, \<lparr>caches = filter (\<lambda>(n, c). n \<notin> set ks) (caches s),
                    trace = trace s @ map CacheDeleted ks\<rparr>)"
  using assms
proof (induction ks arbitrary: s)
  case Nil
  then show ?case by simp
next
  case (Cons k ks)
  then show ?case
    by (auto simp: caches_delete_def emit_def intro!: filter_cong)
qed

lemma filter_names_twice:
  "filter (\<lambda>(n, c). n \<notin> set (filter (\<lambda>key. key \<notin> V) (map fst cs))) cs = filter (\<lambda>(n, c). n \<in> V) cs"
  by (rule filter_cong[OF refl]) force

lemma clearOldCaches_no_fault:
  assumes "\<not> storage_fails pf OpNames" and "\<forall>n. \<not> storage_fails pf (OpDeleteCache n)"
  shows "clearOldCaches cfg pf s =
           \<lparr>caches = filter (\<lambda>(n, c). n \<in> set (cacheList cfg)) (caches s),
            trace = trace s @ map CacheDeleted
                      (filter (\<lambda>key. key \<notin> set (cacheList cfg)) (cache_names s))\<rparr>"
  using assms
  by (simp add: clearOldCaches_def caches_keys_def delete_each_no_fault cache_names_def
        filter_names_twice del: set_filter)

lemma caches_notifyClients: "caches (snd (notifyClients cfg pf s)) = caches s"
  by (simp add: notifyClients_def caches_fold_emit split: sum.splits)

lemma caches_activate: "caches (snd (activate cfg pf s)) = caches (clearOldCaches cfg pf s)"
  by (simp add: activate_def Let_def caches_notifyClients emit_def)

text \<open>
  C5, as the code has it. When listing and deleting caches do not reject, the garbage
  collection of the activation keeps exactly the caches whose name is the current assets
  name, \<open>pages\<close> or \<open>images\<close>, with their entries, and deletes every other one; the rest
  of the activation touches no cache. It creates none: the names afterwards are the
  earlier names that are valid, which need not be all three.
\<close>

theorem activation_keeps_only_valid_caches:
  assumes "\<not> storage_fails pf OpNames" and "\<forall>n. \<not> storage_fails pf (OpDeleteCache n)"
  shows "caches (clearOldCaches cfg pf s) =
           filter (\<lambda>(n, c). n \<in> {assetCacheName cfg, ''pages'', ''images''}) (caches s)
       \<and> caches (snd (activate cfg pf s)) = caches (clearOldCaches cfg pf s)
       \<and> set (cache_names (snd (activate cfg pf s))) =
           set (cache_names s) \<inter> {assetCacheName cfg, ''pages'', ''images''}"
proof -
  have 1: "caches (clearOldCaches cfg pf s) =
           filter (\<lambda>(n, c). n \<in> {assetCacheName cfg, ''pages'', ''images''}) (caches s)"
    using clearOldCaches_no_fault[OF assms, of cfg s]
    by (simp add: cacheList_def pagesCacheName_def imageCacheName_def)
  have 2: "set (map fst (filter (\<lambda>(n, c). n \<in> V) cs)) = set (map fst cs) \<inter> V" for V and cs :: cache_storage
    by (induction cs) auto
  show ?thesis
    using 1 2[of "{assetCacheName cfg, ''pages'', ''images''}" "caches s"]
    by (simp add: caches_activate cache_names_def)
qed

theorem activation_keeps_only_valid_caches_witness:
  "cache_names (snd (activate sample_config one_window_platform after_upgrade)) = [''pages'', ''assets-v2'']"
  using activation_keeps_only_valid_caches[of one_window_platform sample_config after_upgrade]
  by (simp add: cache_names_def one_window_platform_def after_upgrade_def sample_config_def assetCacheName_def)

lemma sample_upgrade_caches:
  "caches (snd (activate sample_config one_window_platform after_upgrade)) =
     [(''pages'', []), (''assets-v2'', [])]"
proof -
  have f: "\<not> storage_fails one_window_platform OpNames"
      "\<forall>n. \<not> storage_fails one_window_platform (OpDeleteCache n)"
    by (simp_all add: one_window_platform_def)
  have l: "cacheList sample_config = [''assets-v2'', ''pages'', ''images'']"
    by (simp add: cacheList_def assetCacheName_def sample_config_def pagesCacheName_def
        imageCacheName_def)
  show ?thesis
    unfolding caches_activate clearOldCaches_no_fault[OF f] l
    by (simp add: after_upgrade_def)
qed

text \<open>
  C5, as stated, fails: with the caches \<open>assets-v1\<close>, \<open>pages\<close> and \<open>assets-v2\<close> before
  the activation of version \<open>v2\<close>, no cache \<open>images\<close> exists afterwards, so the names are
  not the whole valid set.
\<close>

theorem activation_names_counterexample:
  "set (cache_names (snd (activate sample_config one_window_platform after_upgrade)))
     \<noteq> {assetCacheName sample_config, ''pages'', ''images''}"
proof -
  have "''images'' \<notin> set (cache_names (snd (activate sample_config one_window_platform after_upgrade)))"
    by (simp add: cache_names_def sample_upgrade_caches)
  then show ?thesis by blast
qed

text \<open>
  C8, as the code has it. When nothing rejects, an activation first deletes the caches
  with an invalid name, then claims the clients, and only then posts the message
  \<open>SW_UPDATED\<close> with the version token, once to every client.
\<close>

theorem activate_order:
  assumes "\<not> storage_fails pf OpNames" and "\<forall>n. \<not> storage_fails pf (OpDeleteCache n)"
    and "\<not> claim_fails pf" and "windows pf = Inr allClients"
  shows "fst (activate cfg pf s) = Resolved ()
       \<and> trace (snd (activate cfg pf s)) =
           trace s
           @ map CacheDeleted (filter (\<lambda>key. key \<notin> set (cacheList cfg)) (cache_names s))
           @ [Claimed]
           @ map (\<lambda>client. Posted client ''SW_UPDATED'' (app_version cfg)) allClients"
  using assms
  by (simp add: activate_def Let_def notifyClients_def version_token trace_fold_emit
        clearOldCaches_no_fault emit_def)

theorem activate_order_witness:
  "trace (snd (activate sample_config one_window_platform after_upgrade)) =
     [CacheDeleted ''assets-v1'', Claimed, Posted ''https://example.org/'' ''SW_UPDATED'' ''v2'']"
  using activate_order[of one_window_platform "[''https://example.org/'']" sample_config after_upgrade]
  by (simp add: cache_names_def one_window_platform_def after_upgrade_def sample_config_def
       assetCacheName_def cacheList_def pagesCacheName_def imageCacheName_def)

text \<open>
  C8, as stated, fails: in the sample activation the message is posted, but not before
  the clients are claimed.
\<close>

theorem activate_order_counterexample:
  "Posted ''https://example.org/'' ''SW_UPDATED'' ''v2''
     \<in> set (trace (snd (activate sample_config one_window_platform after_upgrade)))
   \<and> Posted ''https://example.org/'' ''SW_UPDATED'' ''v2''
     \<notin> set (takeWhile (\<lambda>e. e \<noteq> Claimed)
              (trace (snd (activate sample_config one_window_platform after_upgrade))))"
proof -
  have "trace (snd (activate sample_config one_window_platform after_upgrade)) =
     [CacheDeleted ''assets-v1'', Claimed, Posted ''https://example.org/'' ''SW_UPDATED'' ''v2'']"
    by (simp add: activate_def Let_def notifyClients_def version_token trace_fold_emit
        clearOldCaches_no_fault emit_def cache_names_def one_window_platform_def
        after_upgrade_def sample_config_def
        assetCacheName_def cacheList_def pagesCacheName_def imageCacheName_def)
  then show ?thesis by simp
qed

section \<open>Properties of the installation\<close>

lemma updateAssetCache_never_rejects: "fst (updateAssetCache cfg pf s) \<noteq> Rejected e"
  by (simp add: updateAssetCache_def Let_def split: sum.splits prod.splits outcome.splits)

lemma cacheClients_never_rejects: "fst (cacheClients pf s) \<noteq> Rejected e"
  by (simp add: cacheClients_def split: sum.splits prod.splits outcome.splits)

lemma install_never_rejects: "fst (install cfg pf s) \<noteq> Rejected e"
proof (cases "updateAssetCache cfg pf s")
  case u: (Pair a s1)
  have a: "a \<noteq> Rejected e'" for e'
    using updateAssetCache_never_rejects[of cfg pf s e'] u by simp
  show ?thesis
  proof (cases "cacheClients pf s1")
    case c: (Pair b s2)
    have b: "b \<noteq> Rejected e'" for e'
      using cacheClients_never_rejects[of pf s1 e'] c by simp
    show ?thesis
      using a b by (cases a; cases b) (simp_all add: install_def u c)
  qed
qed

lemma sample_required_addAll:
  "addAll offline_unreachable ''assets-v2'' [''/assets/app-0a1b.css'', ''/assets/app-2c3d.js'', ''/offline''] s
     = (Rejected NetworkError,
        s\<lparr>trace := trace s @ [Fetched ''/assets/app-0a1b.css'', Fetched ''/assets/app-2c3d.js'', Fetched ''/offline'']\<rparr>)"
  by (simp add: addAll_def offline_unreachable_def okResponse_def ok_def emit_def)


lemma sample_updateAssetCache:
  "updateAssetCache sample_config offline_unreachable fresh_state =
     (Resolved None,
      \<lparr>caches = [(''assets-v2'', [(''/app.webmanifest'', okResponse ''/app.webmanifest'')])],
       trace = [Fetched ''/app.webmanifest'', Fetched ''/assets/app-0a1b.css'',
                Fetched ''/assets/app-2c3d.js'', Fetched ''/offline'',
                Logged ''Error updating asset cache'']\<rparr>)"
proof -
  have n: "assetCacheName sample_config = ''assets-v2''"
    by (simp add: assetCacheName_def sample_config_def)
  have o: "caches_open offline_unreachable ''assets-v2'' fresh_state =
      Inr \<lparr>caches = [(''assets-v2'', [])], trace = []\<rparr>"
    by (simp add: caches_open_def offline_unreachable_def fresh_state_def cache_names_def)
  have m: "addAll offline_unreachable ''assets-v2'' [''/app.webmanifest'']
        \<lparr>caches = [(''assets-v2'', [])], trace = []\<rparr> =
      (Resolved (),
       \<lparr>caches = [(''assets-v2'', [(''/app.webmanifest'', okResponse ''/app.webmanifest'')])],
        trace = [Fetched ''/app.webmanifest'']\<rparr>)"
    by (simp add: addAll_def offline_unreachable_def okResponse_def ok_def emit_def
        cache_put_def set_entries_def entries_def cache_of_def)
  have p: "app_css_path sample_config = ''/assets/app-0a1b.css''"
      "app_js_path sample_config = ''/assets/app-2c3d.js''"
    by (simp_all add: sample_config_def)
  show ?thesis
    by (simp add: updateAssetCache_def n o m p sample_required_addAll emit_def)
qed

lemma sample_cacheClients:
  "cacheClients offline_unreachable s =
     (Resolved (Some ''pages''),
      if ''pages'' \<in> set (cache_names s) then s else s\<lparr>caches := caches s @ [(''pages'', [])]\<rparr>)"
  by (simp add: cacheClients_def offline_unreachable_def caches_open_def pagesCacheName_def
      addAll_def)

text \<open>
  C1, on the code. The fetch of the required URL \<open>/offline\<close> fails; \<open>addAll\<close> rejects,
  the \<open>catch\<close> of \<open>updateAssetCache\<close> logs the error, and the installation goes on: its
  promise resolves and \<open>skipWaiting\<close> is called, with none of the required URLs stored.
  By \<open>install_never_rejects\<close> this promise rejects for no host and no state.
\<close>

theorem install_resolves_despite_required_failure:
  "install sample_config offline_unreachable fresh_state =
     (Resolved (),
      \<lparr>caches = [(''assets-v2'', [(''/app.webmanifest'', okResponse ''/app.webmanifest'')]),
                 (''pages'', [])],
       trace = [Fetched ''/app.webmanifest'', Fetched ''/assets/app-0a1b.css'',
                Fetched ''/assets/app-2c3d.js'', Fetched ''/offline'',
                Logged ''Error updating asset cache'', SkippedWaiting]\<rparr>)"
  by (simp add: install_def sample_updateAssetCache sample_cacheClients cache_names_def emit_def)


section \<open>Properties of the interception\<close>

lemma script_request_hashed: "isHashedAsset ''https://example.org/assets/app-a1b2c3.js''"
  by (simp add: hashed_at_def is_hex_def)

text \<open>
  C2, on the code. In the strategy for hashed assets the fetch, the open and the put
  share one \<open>try\<close>: when the network answers and the put rejects, the \<open>catch\<close> logs and
  answers 503 in place of the fetched response. The navigation and the generic strategy
  do return the fetched response then (\<open>navigation_returns_network_response\<close>,
  \<open>generic_returns_network_response\<close>).
\<close>

theorem hashed_asset_store_failure_gives_503:
  "hashedAssetStrategy sample_config put_rejecting script_request fresh_state =
     (Settles 40 (Inr networkErrorResponse),
      \<lparr>caches = [(''assets-v2'', [])],
       trace = [Fetched ''https://example.org/assets/app-a1b2c3.js'',
                Logged ''Fetch failed for hashed asset:'']\<rparr>)
   \<and> networkErrorResponse \<noteq> okResponse ''script''"
  by (simp add: hashedAssetStrategy_def caches_match_def put_rejecting_def script_request_def
      fresh_state_def emit_def caches_open_def cache_names_def cache_put_def
      assetCacheName_def sample_config_def networkErrorResponse_def okResponse_def)

lemma script_request_routed:
  "handleFetch sample_config put_rejecting script_request fresh_state =
     (let (r, s') = hashedAssetStrategy sample_config put_rejecting script_request fresh_state
      in (RespondWith r, s'))"
  using script_request_hashed
  by (simp add: handleFetch_def wantsHtml_def script_request_def put_rejecting_def)

lemma fst_networkFetch_emit:
  "fst (networkFetch pf ev (emit e s)) = fst (networkFetch pf ev s)"
  by (simp add: networkFetch_def split: timed.splits sum.splits option.splits)

lemma trace_try_store:
  "trace (try_store pf name k r msg s) = trace s \<or>
   trace (try_store pf name k r msg s) = trace s @ [Logged msg]"
  by (auto simp: try_store_def caches_open_def cache_put_def emit_def split: sum.splits if_splits)

lemma navigation_returns_network_response:
  assumes "caches_match pf (url (request ev)) s = Inr cached"
    and "(case cached of Some c \<Rightarrow> race_timeout (fst (networkFetch pf ev s)) timeout
          | None \<Rightarrow> fst (networkFetch pf ev s)) = Settles t (Inr r)"
  shows "fst (navigationStrategy pf ev s) = Settles t (Inr r)"
  using assms
  by (cases cached)
     (simp_all add: navigationStrategy_def case_prod_beta fst_networkFetch_emit)

lemma generic_returns_network_response:
  assumes "caches_match pf (url (request ev)) s = Inr None"
    and "network pf (url (request ev)) = Settles t (Inr r)"
  shows "fst (genericStrategy pf ev s) = Settles t (Inr r)"
  using assms
  by (simp add: genericStrategy_def fetchPromise_def)

lemma timers_set_append [simp]: "timers_set (a @ b) = timers_set a @ timers_set b"
  by (simp add: timers_set_def)

lemma timers_emit:
  "timers_set (trace (emit e s)) =
     timers_set (trace s) @ (case e of TimerSet ms \<Rightarrow> [ms] | _ \<Rightarrow> [])"
  by (simp add: timers_set_def emit_def)

lemma timers_try_store [simp]:
  "timers_set (trace (try_store pf name k r msg s)) = timers_set (trace s)"
  using trace_try_store[of pf name k r msg s] by (auto simp: timers_set_def)

lemma timers_networkFetch [simp]:
  "timers_set (trace (snd (networkFetch pf ev s))) = timers_set (trace s)"
  by (simp add: networkFetch_def emit_def timers_set_def split: timed.splits sum.splits option.splits)

lemma caches_networkFetch [simp]: "caches (snd (networkFetch pf ev s)) = caches s"
  by (simp add: networkFetch_def emit_def split: timed.splits sum.splits option.splits)

lemma caches_match_cong: "caches s' = caches s \<Longrightarrow> caches_match pf k s' = caches_match pf k s"
  by (simp add: caches_match_def)

text \<open>
  C3. Let the lookup of the request succeed. With a cached entry, exactly one timer is set,
  of 5000 ms, and the first of the network fetch and the timer to settle decides: a fetch
  that settles before 5000 ms gives the outcome at its own time (its response, or the
  cached entry when it failed), a fetch that settles later or never loses, and the cached
  entry is answered at 5000 ms. With no cached entry no timer is set and the answer comes
  exactly when the network fetch settles; while the fetch is pending there is no answer.
\<close>

theorem navigation_race_only_with_cache:
  assumes "caches_match pf (url (request ev)) s = Inr cached"
  shows "(\<forall>c. cached = Some c \<longrightarrow>
            timers_set (trace (snd (navigationStrategy pf ev s))) = timers_set (trace s) @ [5000]
          \<and> (\<forall>t x. fst (networkFetch pf ev s) = Settles t x \<and> t < 5000 \<longrightarrow>
                 fst (navigationStrategy pf ev s) =
                   Settles t (Inr (case x of Inr r \<Rightarrow> r | Inl e \<Rightarrow> c)))
          \<and> (fst (networkFetch pf ev s) = Never
               \<or> (\<exists>t x. fst (networkFetch pf ev s) = Settles t x \<and> 5000 < t) \<longrightarrow>
                 fst (navigationStrategy pf ev s) = Settles 5000 (Inr c)))
       \<and> (cached = None \<longrightarrow>
            timers_set (trace (snd (navigationStrategy pf ev s))) = timers_set (trace s)
          \<and> (fst (networkFetch pf ev s) = Never \<longrightarrow> fst (navigationStrategy pf ev s) = Never)
          \<and> (\<forall>t x. fst (networkFetch pf ev s) = Settles t x \<longrightarrow>
                 (\<exists>y. fst (navigationStrategy pf ev s) = Settles t y)))"
proof (cases cached)
  case None
  show ?thesis
  proof (cases "fst (networkFetch pf ev s)")
    case Never
    then show ?thesis using assms None
      by (simp add: navigationStrategy_def case_prod_beta)
  next
    case (Settles t x)
    then show ?thesis using assms None
      by (cases x)
         (simp_all add: navigationStrategy_def case_prod_beta split: sum.splits option.splits)
  qed
next
  case (Some c)
  show ?thesis
  proof (cases "fst (networkFetch pf ev s)")
    case Never
    then show ?thesis using assms Some
      by (simp add: navigationStrategy_def case_prod_beta fst_networkFetch_emit
          race_timeout_def timeout_def timers_emit)
  next
    case (Settles t x)
    then show ?thesis using assms Some
      by (cases x)
         (auto simp: navigationStrategy_def case_prod_beta fst_networkFetch_emit
            race_timeout_def timeout_def timers_emit)
  qed
qed

lemma page_visit_lookups:
  "first_match ''https://example.org/notes'' (caches visited_before) = Some (okResponse ''old page'')"
  "first_match ''https://example.org/notes'' (caches never_visited) = None"
  "first_match ''/offline'' (caches never_visited) = Some (okResponse ''offline page'')"
  by (simp_all add: visited_before_def never_visited_def)

lemma page_visit_url: "url (request page_visit) = ''https://example.org/notes''"
  by (simp add: page_visit_def)

lemma page_visit_fetch:
  "networkFetch slow_platform page_visit s =
     (Settles 8000 (Inr (okResponse ''fresh page'')), emit (Fetched ''https://example.org/notes'') s)"
  "networkFetch down_platform page_visit s =
     (Settles 20 (Inl NetworkError), emit (Fetched ''https://example.org/notes'') s)"
  by (simp_all add: networkFetch_def page_visit_def slow_platform_def down_platform_def)

lemma page_visit_match:
  "caches_match slow_platform (url (request page_visit)) s =
     Inr (first_match ''https://example.org/notes'' (caches s))"
  "caches_match down_platform (url (request page_visit)) s =
     Inr (first_match ''https://example.org/notes'' (caches s))"
  "caches_match down_platform ''/offline'' s = Inr (first_match ''/offline'' (caches s))"
  by (simp_all add: caches_match_def page_visit_url slow_platform_def down_platform_def)

theorem navigation_race_only_with_cache_witness:
  "fst (navigationStrategy slow_platform page_visit visited_before) =
     Settles 5000 (Inr (okResponse ''old page''))
   \<and> timers_set (trace (snd (navigationStrategy slow_platform page_visit visited_before))) = [5000]
   \<and> (\<exists>y. fst (navigationStrategy slow_platform page_visit never_visited) = Settles 8000 y)
   \<and> timers_set (trace (snd (navigationStrategy slow_platform page_visit never_visited))) = []"
proof -
  have h: "caches_match slow_platform (url (request page_visit)) visited_before =
      Inr (Some (okResponse ''old page''))"
    by (simp add: page_visit_match page_visit_lookups)
  have h': "caches_match slow_platform (url (request page_visit)) never_visited = Inr None"
    by (simp add: page_visit_match page_visit_lookups)
  have nf: "fst (networkFetch slow_platform page_visit s) =
      Settles 8000 (Inr (okResponse ''fresh page''))" for s
    by (simp add: page_visit_fetch)
  have tr: "timers_set (trace visited_before) = []" "timers_set (trace never_visited) = []"
    by (simp_all add: visited_before_def never_visited_def timers_set_def)
  from navigation_race_only_with_cache[OF h] navigation_race_only_with_cache[OF h']
  show ?thesis
    by (simp add: nf tr)
qed



text \<open>
  The only failure the navigation strategy can hand on is that of a cache lookup; a failure
  of the network or the timeout never is.
\<close>

lemma navigation_rejection_is_lookup_failure:
  assumes "fst (navigationStrategy pf ev s) = Settles t (Inl e)"
  shows "e = StorageError \<and>
         (storage_fails pf (OpMatch (url (request ev))) \<or> storage_fails pf (OpMatch ''/offline''))"
proof (cases "caches_match pf (url (request ev)) s")
  case (Inl e')
  then show ?thesis using assms
    by (simp add: navigationStrategy_def caches_match_def split: if_splits)
next
  case (Inr cached)
  show ?thesis
  proof (cases cached)
    case (Some c)
    then have "False" using assms Inr
      by (cases "race_timeout (fst (networkFetch pf ev s)) timeout")
         (simp_all add: navigationStrategy_def case_prod_beta fst_networkFetch_emit Let_def
            split: sum.splits)
    then show ?thesis ..
  next
    case None
    then show ?thesis using assms Inr
      by (cases "fst (networkFetch pf ev s)")
         (auto simp: navigationStrategy_def case_prod_beta caches_match_def
            split: sum.splits option.splits if_splits)
  qed
qed



lemma map_of_replaced:
  "map_of (filter (\<lambda>(k', _). k' \<noteq> k) c @ [(k, r)]) k = Some r"
proof -
  have "map_of (filter (\<lambda>(k', _). k' \<noteq> k) c) k = None"
    by (induction c) auto
  then show ?thesis by (simp add: map_add_def)
qed

lemma first_match_set_entries:
  assumes "first_match k cs = None" and "name \<in> fst ` set cs" and "map_of c' k = Some r"
  shows "first_match k (set_entries name c' cs) = Some r"
  using assms
proof (induction cs)
  case Nil
  then show ?case by simp
next
  case (Cons a cs)
  obtain n c where a: "a = (n, c)" by (cases a)
  have none: "map_of c k = None" and rest: "first_match k cs = None"
    using Cons.prems(1) a by (simp_all split: option.splits)
  show ?case
  proof (cases "n = name")
    case True
    then show ?thesis using a Cons.prems(3) by (simp add: set_entries_def)
  next
    case False
    then have "name \<in> fst ` set cs" using Cons.prems(2) a by auto
    then have "first_match k (set_entries name c' cs) = Some r"
      using Cons.IH rest Cons.prems(3) by simp
    then show ?thesis using a False none by (simp add: set_entries_def)
  qed
qed

lemma hashed_first_request:
  assumes "caches_match pf u s = Inr None"
    and "network pf u = Settles t (Inr r)"
    and "\<not> storage_fails pf (OpOpen (assetCacheName cfg))"
    and "\<not> storage_fails pf (OpPut (assetCacheName cfg) u)"
    and "url (request ev) = u"
  shows "fst (hashedAssetStrategy cfg pf ev s) = Settles t (Inr r)
       \<and> first_match u (caches (snd (hashedAssetStrategy cfg pf ev s))) = Some r"
proof -
  let ?s1 = "emit (Fetched u) s"
  obtain s2 where op: "caches_open pf (assetCacheName cfg) ?s1 = Inr s2"
    using assms(3)
    by (cases "assetCacheName cfg \<in> set (cache_names ?s1)") (simp_all add: caches_open_def)
  note o = caches_open_Inr[OF op]
  have fm: "first_match u (caches s) = None"
    using assms(1) by (simp add: caches_match_def split: if_splits)
  have fm2: "first_match u (caches s2) = None"
  proof (cases "assetCacheName cfg \<in> set (cache_names ?s1)")
    case True
    then show ?thesis using op fm assms(3) by (auto simp: caches_open_def emit_def)
  next
    case False
    have "first_match u (cs @ [(n, [])]) = first_match u cs" for cs :: cache_storage and n
      by (induction cs) (auto split: option.splits)
    then show ?thesis using False op fm assms(3) by (auto simp: caches_open_def emit_def)
  qed
  let ?s3 = "s2\<lparr>caches := set_entries (assetCacheName cfg)
        (filter (\<lambda>(k', _). k' \<noteq> u) (entries (assetCacheName cfg) s2) @ [(u, r)]) (caches s2)\<rparr>"
  have put: "cache_put pf (assetCacheName cfg) u r s2 = Inr ?s3"
    using assms(4) by (simp add: cache_put_def)
  have mem: "assetCacheName cfg \<in> fst ` set (caches s2)"
    using o(1) by (simp add: cache_names_def)
  have res: "hashedAssetStrategy cfg pf ev s = (Settles t (Inr r), ?s3)"
    using assms(1,2,5) op put by (simp add: hashedAssetStrategy_def)
  have "first_match u (caches ?s3) = Some r"
    using first_match_set_entries[OF fm2 mem map_of_replaced] by simp
  then show ?thesis using res by simp
qed

text \<open>
  C6. A same-origin GET request that is no navigation and whose URL matches the pattern of
  hashed assets is answered from the cache when an entry exists: the state, and with it
  the trace, is unchanged, so no fetch is made. After a first request that missed the
  cache, fetched and stored the response, the same request is answered with the stored
  response, again with no fetch.
\<close>

theorem hashed_asset_cache_first:
  assumes "origin (request ev) = location_origin pf"
    and "req_method (request ev) = ''GET''"
    and "\<not> wantsHtml (request ev)"
    and "isHashedAsset (url (request ev))"
    and "\<not> storage_fails pf (OpMatch (url (request ev)))"
  shows "(\<forall>c. first_match (url (request ev)) (caches s) = Some c \<longrightarrow>
            handleFetch cfg pf ev s = (RespondWith (Settles 0 (Inr c)), s))
       \<and> (\<forall>t r. first_match (url (request ev)) (caches s) = None
                \<and> network pf (url (request ev)) = Settles t (Inr r)
                \<and> \<not> storage_fails pf (OpOpen (assetCacheName cfg))
                \<and> \<not> storage_fails pf (OpPut (assetCacheName cfg) (url (request ev))) \<longrightarrow>
            fst (handleFetch cfg pf ev s) = RespondWith (Settles t (Inr r))
          \<and> handleFetch cfg pf ev (snd (handleFetch cfg pf ev s)) =
              (RespondWith (Settles 0 (Inr r)), snd (handleFetch cfg pf ev s)))"
proof -
  have route: "handleFetch cfg pf ev s' =
      (RespondWith (fst (hashedAssetStrategy cfg pf ev s')), snd (hashedAssetStrategy cfg pf ev s'))" for s'
    using assms(1-4) by (simp add: handleFetch_def split: prod.splits)
  have hit: "hashedAssetStrategy cfg pf ev s' = (Settles 0 (Inr c), s')"
    if "first_match (url (request ev)) (caches s') = Some c" for s' c
    using that assms(5) by (simp add: hashedAssetStrategy_def caches_match_def)
  have first: "fst (hashedAssetStrategy cfg pf ev s) = Settles t (Inr r)
       \<and> first_match (url (request ev)) (caches (snd (hashedAssetStrategy cfg pf ev s))) = Some r"
    if "first_match (url (request ev)) (caches s) = None"
      and "network pf (url (request ev)) = Settles t (Inr r)"
      and "\<not> storage_fails pf (OpOpen (assetCacheName cfg))"
      and "\<not> storage_fails pf (OpPut (assetCacheName cfg) (url (request ev)))" for t r
    using hashed_first_request[of pf "url (request ev)" s t r cfg ev] that assms(5)
    by (simp add: caches_match_def)
  show ?thesis
    using hit first by (simp add: route)
qed


theorem hashed_asset_cache_first_witness:
  "fst (handleFetch sample_config serving_platform script_request fresh_state) =
     RespondWith (Settles 40 (Inr (okResponse ''script'')))
   \<and> handleFetch sample_config serving_platform script_request
        (snd (handleFetch sample_config serving_platform script_request fresh_state)) =
      (RespondWith (Settles 0 (Inr (okResponse ''script''))),
       snd (handleFetch sample_config serving_platform script_request fresh_state))"
proof -
  have u: "url (request script_request) = ''https://example.org/assets/app-a1b2c3.js''"
    by (simp add: script_request_def)
  have 1: "origin (request script_request) = location_origin serving_platform"
    by (simp add: script_request_def serving_platform_def)
  have 2: "req_method (request script_request) = ''GET''"
    by (simp add: script_request_def)
  have 3: "\<not> wantsHtml (request script_request)"
    by (simp add: wantsHtml_def script_request_def)
  have 4: "isHashedAsset (url (request script_request))"
    unfolding u by (rule script_request_hashed)
  have 5: "\<not> storage_fails serving_platform (OpMatch (url (request script_request)))"
    by (simp add: serving_platform_def)
  have 6: "first_match (url (request script_request)) (caches fresh_state) = None"
    by (simp add: fresh_state_def)
  have 7: "network serving_platform (url (request script_request)) =
      Settles 40 (Inr (okResponse ''script''))"
    by (simp add: serving_platform_def)
  have 8: "\<not> storage_fails serving_platform (OpOpen n)"
      "\<not> storage_fails serving_platform (OpPut n k)" for n k
    by (simp_all add: serving_platform_def)
  from hashed_asset_cache_first[OF 1 2 3 4 5, of fresh_state sample_config] show ?thesis
    using 6 7 8 by simp
qed





lemma cache_put_Inr:
  assumes "cache_put pf name k r s = Inr s2" and "name \<in> set (cache_names s)"
  shows "entries name s2 = filter (\<lambda>(k', _). k' \<noteq> k) (entries name s) @ [(k, r)]"
    and "trace s2 = trace s"
proof -
  have s2: "s2 = s\<lparr>caches :=
        set_entries name (filter (\<lambda>(k', _). k' \<noteq> k) (entries name s) @ [(k, r)]) (caches s)\<rparr>"
    using assms(1) by (simp add: cache_put_def split: if_splits)
  have mem: "name \<in> fst ` set (caches s)"
    using assms(2) by (simp add: cache_names_def)
  show "entries name s2 = filter (\<lambda>(k', _). k' \<noteq> k) (entries name s) @ [(k, r)]"
    using mem by (simp add: s2 entries_def cache_of_set_entries_same)
  show "trace s2 = trace s" by (simp add: s2)
qed





section \<open>Further facts about the caches\<close>

text \<open>Storing an entry keeps the keys of a cache distinct, as the trimming assumes them.\<close>

lemma cache_put_keeps_keys_distinct:
  assumes "cache_put pf name k r s = Inr s2" and "name \<in> set (cache_names s)"
    and "distinct (map fst (entries name s))"
  shows "distinct (map fst (entries name s2))"
proof -
  have "distinct (map fst (filter (\<lambda>(k', _). k' \<noteq> k) c))" if "distinct (map fst c)" for c :: cache
    using that by (induction c) auto
  moreover have "k \<notin> fst ` set (filter (\<lambda>(k', _). k' \<noteq> k) c)" for c :: cache
    by auto
  ultimately show ?thesis
    using cache_put_Inr(1)[OF assms(1,2)] assms(3) by simp
qed

text \<open>
  The message \<open>trimCaches\<close>, when no storage operation rejects, bounds the pages cache
  by 50 entries and the image cache by 100.
\<close>

lemma handleMessage_trims_both:
  assumes "\<forall>op. \<not> storage_fails pf op"
    and "distinct (map fst (entries ''pages'' s))"
    and "distinct (map fst (entries ''images'' s))"
  shows "length (entries ''pages'' (handleMessage pf ''trimCaches'' s)) =
           min (length (entries ''pages'' s)) 50
       \<and> length (entries ''images'' (handleMessage pf ''trimCaches'' s)) =
           min (length (entries ''images'' s)) 100"
proof -
  let ?s1 = "trimCache pf ''pages'' 50 s"
  have f: "\<not> storage_fails pf (OpOpen n)" "\<not> storage_fails pf (OpKeys n)"
      "\<forall>k. \<not> storage_fails pf (OpDelete n k)" for n
    using assms(1) by simp_all
  note p = trimCache_no_fault[OF f(1,2,3) assms(2), of 50]
  have i1: "entries ''images'' ?s1 = entries ''images'' s"
    using p by simp
  then have d: "distinct (map fst (entries ''images'' ?s1))"
    using assms(3) by simp
  note i = trimCache_no_fault[OF f(1,2,3) d, of 100]
  have p2: "entries ''pages'' (trimCache pf ''images'' 100 ?s1) = entries ''pages'' ?s1"
    using i by simp
  show ?thesis
    using p i i1 p2
    by (simp add: handleMessage_def pagesCacheName_def imageCacheName_def maxPages_def
        maxImages_def min_def)
qed

end
